theory Spec2Isabelle
  imports Complex_Main
begin

section \<open>The local-process task of the command line module backend\<close>

text \<open>
  This theory embeds \<^verbatim>\<open>ctkCmdLineModuleProcessTask.cpp\<close>: the class
  \<^verbatim>\<open>ctkCmdLineModuleProcessWatcher\<close>, which turns the signals of the XML progress
  watcher, of the future watcher and of the pause timer into requests to the future
  interface and to the operating system, and the class \<^verbatim>\<open>ctkCmdLineModuleProcessTask\<close>
  whose \<^verbatim>\<open>run()\<close> starts the process, waits in a local event loop and reports the
  outcome.

  \<^verbatim>\<open>QProcess\<close>, \<^verbatim>\<open>QFutureInterface\<close>, \<^verbatim>\<open>QThreadPool\<close>, \<^verbatim>\<open>qDebug\<close> and
  \<^verbatim>\<open>::kill\<close> are not part of the file. What the code asks of them is recorded, in
  order, in a list of calls, with the arguments the code passes; what they do with a call
  is theirs. The wiring (\<^verbatim>\<open>connect\<close>, \<^verbatim>\<open>setReadChannel\<close>, \<^verbatim>\<open>setFuture\<close>) is not
  recorded: it shows in which slot an event of the loop reaches. What the code reads from
  these objects (the canceled and paused flags of the future, the return value of
  \<^verbatim>\<open>::kill\<close>, the state of the process once the event loop has returned) is an
  input of the model.
\<close>

subsection \<open>Single precision numbers and their conversion to \<^verbatim>\<open>int\<close>\<close>

text \<open>
  A C++ \<^verbatim>\<open>float\<close> is a finite number, an infinity (the flag is the sign bit) or a
  NaN. Finite values are kept as rationals; the sign of zero is dropped, since the only
  consumer is the conversion to \<^verbatim>\<open>int\<close>.
\<close>

datatype cfloat = Finite rat | Infinite bool | NaN

definition pow2 :: "int \<Rightarrow> rat" where
  "pow2 e = (if 0 \<le> e then 2 ^ nat e else 1 / 2 ^ nat (- e))"

text \<open>The largest finite binary32 number, \<open>(2 - 2\<^sup>-\<^sup>2\<^sup>3) * 2\<^sup>1\<^sup>2\<^sup>7\<close>.\<close>

definition FLT_MAX :: rat where
  "FLT_MAX = (2 ^ 24 - 1) * 2 ^ 104"

text \<open>
  The binary exponent of a nonzero number: the greatest \<open>e\<close> in \<open>-126 .. 127\<close> with
  \<open>2\<^sup>e \<le> |x|\<close>, and \<open>-126\<close> for the subnormal numbers below \<open>2\<^sup>-\<^sup>1\<^sup>2\<^sup>6\<close>.
\<close>

definition binary32_exponent :: "rat \<Rightarrow> int" where
  "binary32_exponent x =
     (case find (\<lambda>e. pow2 e \<le> \<bar>x\<bar>) (rev [-126 .. 127]) of
        Some e \<Rightarrow> e
      | None \<Rightarrow> -126)"

definition round_half_even :: "rat \<Rightarrow> int" where
  "round_half_even y =
     (let n = \<lfloor>y\<rfloor>; r = y - of_int n
      in if r < 1 / 2 then n
         else if 1 / 2 < r then n + 1
         else if even n then n else n + 1)"

text \<open>
  Rounding of an exact result to binary32, to nearest with ties to even: the result is
  a multiple of the unit in the last place \<open>2\<^sup>e\<^sup>-\<^sup>2\<^sup>3\<close>; a result beyond \<open>FLT_MAX\<close>
  overflows to an infinity.
\<close>

definition round_binary32 :: "rat \<Rightarrow> cfloat" where
  "round_binary32 x =
     (let u = pow2 (binary32_exponent x - 23);
          r = of_int (round_half_even (x / u)) * u
      in if FLT_MAX < \<bar>r\<bar> then Infinite (r < 0) else Finite r)"

text \<open>A rational is a binary32 value when rounding leaves it alone.\<close>

definition is_binary32 :: "rat \<Rightarrow> bool" where
  "is_binary32 q = (round_binary32 q = Finite q)"

text \<open>
  The product of two floats, \<^verbatim>\<open>a * b\<close>, evaluated in single precision: the exact
  product, rounded.
\<close>

fun fmul :: "cfloat \<Rightarrow> cfloat \<Rightarrow> cfloat" where
  "fmul NaN _ = NaN"
| "fmul _ NaN = NaN"
| "fmul (Infinite s) (Infinite t) = Infinite (s \<noteq> t)"
| "fmul (Infinite s) (Finite b) = (if b = 0 then NaN else Infinite (s \<noteq> (b < 0)))"
| "fmul (Finite a) (Infinite t) = (if a = 0 then NaN else Infinite ((a < 0) \<noteq> t))"
| "fmul (Finite a) (Finite b) = round_binary32 (a * b)"

definition INT_MIN :: int where "INT_MIN = - (2 ^ 31)"
definition INT_MAX :: int where "INT_MAX = 2 ^ 31 - 1"

text \<open>
  \<^verbatim>\<open>static_cast<int>(x)\<close> discards the fractional part. The behaviour is undefined
  when the truncated value is not an \<^verbatim>\<open>int\<close>, and for infinities and NaN: \<open>None\<close>.
\<close>

definition to_zero :: "rat \<Rightarrow> int" where
  "to_zero r = (if 0 \<le> r then \<lfloor>r\<rfloor> else \<lceil>r\<rceil>)"

fun static_cast_int :: "cfloat \<Rightarrow> int option" where
  "static_cast_int (Finite r) =
     (if INT_MIN \<le> to_zero r \<and> to_zero r \<le> INT_MAX then Some (to_zero r) else None)"
| "static_cast_int (Infinite s) = None"
| "static_cast_int NaN = None"

subsection \<open>The objects the code talks to\<close>

datatype signal = SIGSTOP | SIGCONT

datatype ProcessError =
  FailedToStart | Crashed | Timedout | ReadError | WriteError | UnknownError

text \<open>\<^verbatim>\<open>ctkCmdLineModuleRunException(location, errorCode, errorString)\<close>.\<close>

datatype run_exception = RunException string int string

datatype call =
    SetProgressRange int int
  | SetProgressValue int
  | SetProgressValueAndText int string
  | SetPaused bool
  | SetRunnable
  | ReportStarted
  | ReportException run_exception
  | ReportFinished
  | ThreadPoolStart int
  | ProcessStart string "string list"
  | ProcessTerminate
  | Kill signal
  | TimerStart int
  | QDebug string

text \<open>
  The state the watcher and the task work on. \<open>canceled\<close> and \<open>paused\<close> are the flags
  of the future interface behind \<^verbatim>\<open>isCanceled()\<close>, \<^verbatim>\<open>isPaused()\<close> and
  \<^verbatim>\<open>setPaused()\<close>; \<open>processPaused\<close> and \<open>progressValue\<close> are the watcher's own
  members; \<open>calls\<close> is the list of requests made so far.
\<close>

record world =
  canceled :: bool
  paused :: bool
  processPaused :: bool
  progressValue :: int
  calls :: "call list"

definition emit :: "call \<Rightarrow> world \<Rightarrow> world" where
  "emit c w = w\<lparr>calls := calls w @ [c]\<rparr>"

subsection \<open>ctkCmdLineModuleProcessWatcher\<close>

text \<open>
  The constructor: \<^verbatim>\<open>processPaused(false), progressValue(0)\<close>, the progress range and,
  under \<^verbatim>\<open>Q_OS_UNIX\<close>, the timer that polls for a pause request every 500 ms.
\<close>

definition ctkCmdLineModuleProcessWatcher :: "bool \<Rightarrow> world \<Rightarrow> world" where
  "ctkCmdLineModuleProcessWatcher unix w =
     (let w1 = emit (SetProgressRange 0 1000) (w\<lparr>processPaused := False, progressValue := 0\<rparr>)
      in if unix then emit (TimerStart 500) w1 else w1)"

text \<open>
  \<^verbatim>\<open>updateProgress\<close>: the assignment from the truncated product, then the two
  clamping statements. \<open>None\<close> where the conversion is undefined.
\<close>

definition updateProgress :: "cfloat \<Rightarrow> world \<Rightarrow> (int \<times> world) option" where
  "updateProgress progress w =
     (case static_cast_int (fmul progress (Finite 1000)) of
        None \<Rightarrow> None
      | Some v \<Rightarrow>
          let w1 = w\<lparr>progressValue := v\<rparr>;
              w2 = (if progressValue w1 < 1 then w1\<lparr>progressValue := 1\<rparr> else w1);
              w3 = (if progressValue w2 > 999 then w2\<lparr>progressValue := 999\<rparr> else w2)
          in Some (progressValue w3, w3))"

text \<open>
  \<^verbatim>\<open>incrementProgress\<close>: \<^verbatim>\<open>++progressValue\<close> overflows, with undefined behaviour,
  at \<^verbatim>\<open>INT_MAX\<close>: \<open>None\<close>.
\<close>

definition incrementProgress :: "world \<Rightarrow> (int \<times> world) option" where
  "incrementProgress w =
     (if progressValue w = INT_MAX then None
      else
        let w1 = w\<lparr>progressValue := progressValue w + 1\<rparr>;
            w2 = (if progressValue w1 > 999 then w1\<lparr>progressValue := 999\<rparr> else w1)
        in Some (progressValue w2, w2))"

definition filterStarted :: "string \<Rightarrow> string \<Rightarrow> world \<Rightarrow> world option" where
  "filterStarted name comment w =
     (case incrementProgress w of
        None \<Rightarrow> None
      | Some (v, w1) \<Rightarrow> Some (emit (SetProgressValueAndText v name) w1))"

definition filterProgress :: "cfloat \<Rightarrow> world \<Rightarrow> world option" where
  "filterProgress progress w =
     (case updateProgress progress w of
        None \<Rightarrow> None
      | Some (v, w1) \<Rightarrow> Some (emit (SetProgressValue v) w1))"

definition filterFinished :: "string \<Rightarrow> world \<Rightarrow> world option" where
  "filterFinished name w =
     (case incrementProgress w of
        None \<Rightarrow> None
      | Some (v, w1) \<Rightarrow> Some (emit (SetProgressValueAndText v (''Finished: '' @ name)) w1))"

definition filterXmlError :: "string \<Rightarrow> string \<Rightarrow> world \<Rightarrow> world" where
  "filterXmlError location err w = emit (QDebug (''[Module '' @ location @ '']: '' @ err)) w"

text \<open>
  \<^verbatim>\<open>pauseProcess\<close> and \<^verbatim>\<open>resumeProcess\<close>. \<open>unix\<close> is \<^verbatim>\<open>Q_OS_UNIX\<close>; \<open>rc\<close> is what
  \<^verbatim>\<open>::kill\<close> returns when it is called (zero on success).
\<close>

definition pauseProcess :: "bool \<Rightarrow> int \<Rightarrow> world \<Rightarrow> world" where
  "pauseProcess unix rc w =
     (if processPaused w \<or> \<not> paused w then w
      else if unix then
        (let w1 = emit (Kill SIGSTOP) w
         in if rc \<noteq> 0 then (emit (SetPaused False) w1)\<lparr>paused := False\<rparr>
            else w1\<lparr>processPaused := True\<rparr>)
      else w)"

definition resumeProcess :: "bool \<Rightarrow> int \<Rightarrow> world \<Rightarrow> world" where
  "resumeProcess unix rc w =
     (if \<not> processPaused w then w
      else if unix then
        (let w1 = emit (Kill SIGCONT) w
         in if rc \<noteq> 0 then (emit (SetPaused True) w1)\<lparr>paused := True\<rparr>
            else w1\<lparr>processPaused := False\<rparr>)
      else w)"

definition cancelProcess :: "world \<Rightarrow> world" where
  "cancelProcess w = emit ProcessTerminate w"

subsection \<open>The process and the local event loop\<close>

text \<open>
  What \<^verbatim>\<open>run()\<close> reads from the \<^verbatim>\<open>QProcess\<close> once the event loop has returned:
  \<^verbatim>\<open>error()\<close>, \<^verbatim>\<open>exitCode()\<close>, \<^verbatim>\<open>errorString()\<close> and the bytes of the standard
  error channel that have not been read yet.
\<close>

record qprocess =
  error :: ProcessError
  exitCode :: int
  errorString :: string
  standardError :: string

text \<open>
  \<^verbatim>\<open>QProcess::readAllStandardError()\<close> is a read: it returns all data available from
  the standard error channel and takes it out of the buffer.
\<close>

definition readAllStandardError :: "qprocess \<Rightarrow> string \<times> qprocess" where
  "readAllStandardError p = (standardError p, p\<lparr>standardError := []\<rparr>)"

text \<open>
  What happens while \<^verbatim>\<open>localLoop.exec()\<close> runs: the signals the constructor connects
  to the watcher's slots (the number carried by \<open>ResumedSignal\<close> and \<open>PollPauseTimeout\<close>
  is what \<^verbatim>\<open>::kill\<close> returns if the slot calls it), and the caller of the future
  changing its flags.
\<close>

datatype loop_event =
    FilterStartedSignal string string
  | FilterProgressSignal cfloat
  | FilterFinishedSignal string
  | FilterXmlErrorSignal string
  | CanceledSignal
  | ResumedSignal int
  | PollPauseTimeout int
  | CallerSetsPaused bool
  | CallerCancels

text \<open>
  The \<^verbatim>\<open>connect\<close> calls of the constructor: \<^verbatim>\<open>resumed()\<close> and the timer are
  connected under \<^verbatim>\<open>Q_OS_UNIX\<close> only.
\<close>

fun deliver :: "bool \<Rightarrow> string \<Rightarrow> loop_event \<Rightarrow> world \<Rightarrow> world option" where
  "deliver unix location (FilterStartedSignal name comment) w = filterStarted name comment w"
| "deliver unix location (FilterProgressSignal progress) w = filterProgress progress w"
| "deliver unix location (FilterFinishedSignal name) w = filterFinished name w"
| "deliver unix location (FilterXmlErrorSignal err) w = Some (filterXmlError location err w)"
| "deliver unix location CanceledSignal w = Some (cancelProcess w)"
| "deliver unix location (ResumedSignal rc) w =
     Some (if unix then resumeProcess unix rc w else w)"
| "deliver unix location (PollPauseTimeout rc) w =
     Some (if unix then pauseProcess unix rc w else w)"
| "deliver unix location (CallerSetsPaused b) w = Some (w\<lparr>paused := b\<rparr>)"
| "deliver unix location CallerCancels w = Some (w\<lparr>canceled := True\<rparr>)"

fun localLoop_exec :: "bool \<Rightarrow> string \<Rightarrow> loop_event list \<Rightarrow> world \<Rightarrow> world option" where
  "localLoop_exec unix location [] w = Some w"
| "localLoop_exec unix location (ev # evs) w =
     (case deliver unix location ev w of
        None \<Rightarrow> None
      | Some w1 \<Rightarrow> localLoop_exec unix location evs w1)"

subsection \<open>ctkCmdLineModuleProcessTask\<close>

definition start :: "world \<Rightarrow> world" where
  "start w = emit (ThreadPoolStart 0) (emit ReportStarted (emit SetRunnable w))"

text \<open>
  \<^verbatim>\<open>run()\<close>. \<open>evs\<close> is what the event loop delivers before the process finishes or
  fails, \<open>process\<close> the state of the \<^verbatim>\<open>QProcess\<close> at that moment.
  \<open>report_outcome\<close> is the \<^verbatim>\<open>if\<close> / \<^verbatim>\<open>else if\<close> after the loop, which reports
  an exception and, in its second branch, reads the standard error channel.
\<close>

definition report_outcome :: "string \<Rightarrow> qprocess \<Rightarrow> world \<Rightarrow> world \<times> qprocess" where
  "report_outcome location process w =
     (if error process \<noteq> UnknownError then
        (emit (ReportException
                 (RunException location (exitCode process) (errorString process))) w,
         process)
      else if exitCode process \<noteq> 0 then
        (let (err, process1) = readAllStandardError process
         in (emit (ReportException (RunException location (exitCode process) err)) w,
             process1))
      else (w, process))"

definition run ::
  "bool \<Rightarrow> string \<Rightarrow> string list \<Rightarrow> loop_event list \<Rightarrow> qprocess \<Rightarrow> world \<Rightarrow> world option"
where
  "run unix location args evs process w =
     (if canceled w then Some (emit ReportFinished w)
      else
        let w1 = emit (ProcessStart location args) w;
            w2 = ctkCmdLineModuleProcessWatcher unix w1
        in case localLoop_exec unix location evs w2 of
             None \<Rightarrow> None
           | Some w3 \<Rightarrow>
               let (w4, process1) = report_outcome location process w3;
                   (text, process2) = readAllStandardError process1;
                   w5 = emit (SetProgressValueAndText 1000 text) w4
               in Some (emit ReportFinished w5))"

text \<open>
  One execution of a task: \<^verbatim>\<open>start()\<close> hands the task to the thread pool, which calls
  \<^verbatim>\<open>run()\<close> later; \<open>cancel_first\<close> says whether the caller cancels the future in
  between.
\<close>

definition execute ::
  "bool \<Rightarrow> string \<Rightarrow> string list \<Rightarrow> bool \<Rightarrow> loop_event list \<Rightarrow> qprocess \<Rightarrow> world
     \<Rightarrow> world option"
where
  "execute unix location args cancel_first evs process w =
     (let w1 = start w;
          w2 = (if cancel_first then w1\<lparr>canceled := True\<rparr> else w1)
      in run unix location args evs process w2)"

text \<open>A task as its constructor leaves it, before anything was asked of the future.\<close>

definition new_task :: world where
  "new_task =
     \<lparr>canceled = False, paused = False, processPaused = False, progressValue = 0,
      calls = []\<rparr>"

subsection \<open>Reading the list of calls\<close>

text \<open>The progress values handed to the future interface, in order.\<close>

fun progress_of :: "call \<Rightarrow> int list" where
  "progress_of (SetProgressValue v) = [v]"
| "progress_of (SetProgressValueAndText v t) = [v]"
| "progress_of _ = []"

definition progress_requests :: "call list \<Rightarrow> int list" where
  "progress_requests cs = concat (map progress_of cs)"

fun exception_of :: "call \<Rightarrow> run_exception list" where
  "exception_of (ReportException e) = [e]"
| "exception_of _ = []"

definition reported_exceptions :: "call list \<Rightarrow> run_exception list" where
  "reported_exceptions cs = concat (map exception_of cs)"

fun message_of :: "call \<Rightarrow> string list" where
  "message_of (QDebug m) = [m]"
| "message_of _ = []"

definition logged :: "call list \<Rightarrow> string list" where
  "logged cs = concat (map message_of cs)"

text \<open>
  The calls a slot of the watcher can make: progress values between 1 and 999, the
  paused flag, signals to the process, diagnostics.
\<close>

fun watcher_call :: "call \<Rightarrow> bool" where
  "watcher_call (SetProgressValue v) = (1 \<le> v \<and> v \<le> 999)"
| "watcher_call (SetProgressValueAndText v t) = (1 \<le> v \<and> v \<le> 999)"
| "watcher_call (SetPaused b) = True"
| "watcher_call ProcessTerminate = True"
| "watcher_call (Kill s) = True"
| "watcher_call (QDebug m) = True"
| "watcher_call _ = False"

text \<open>
  An event the code handles with defined behaviour: the progress of a
  \<^verbatim>\<open>filterProgress\<close> signal, times 1000, converts to \<^verbatim>\<open>int\<close>.
\<close>

fun convertible :: "loop_event \<Rightarrow> bool" where
  "convertible (FilterProgressSignal progress) =
     (static_cast_int (fmul progress (Finite 1000)) \<noteq> None)"
| "convertible _ = True"

subsection \<open>The normalisation as the specification words it\<close>

definition clamp :: "int \<Rightarrow> int \<Rightarrow> int \<Rightarrow> int" where
  "clamp x lo hi = max lo (min hi x)"

text \<open>\<open>clamp(round(fraction * 1000), 1, 999)\<close>, on the exact product.\<close>

definition spec_progress :: "rat \<Rightarrow> int" where
  "spec_progress fraction = clamp (round (fraction * 1000)) 1 999"

text \<open>The events that go through \<^verbatim>\<open>incrementProgress\<close>.\<close>

fun started_or_finished :: "loop_event \<Rightarrow> bool" where
  "started_or_finished (FilterStartedSignal name comment) = True"
| "started_or_finished (FilterFinishedSignal name) = True"
| "started_or_finished _ = False"

section \<open>Properties\<close>

subsection \<open>Rounding and conversion\<close>

lemma round_half_even_bounds:
  "\<lfloor>y\<rfloor> \<le> round_half_even y \<and> round_half_even y \<le> \<lceil>y\<rceil>"
proof -
  have "y - of_int \<lfloor>y\<rfloor> \<noteq> 0 \<Longrightarrow> \<lceil>y\<rceil> = \<lfloor>y\<rfloor> + 1"
    by (simp add: ceiling_altdef)
  then show ?thesis
    by (auto simp: round_half_even_def Let_def)
qed

lemma pow2_pos: "0 < pow2 e"
  by (simp add: pow2_def)

lemma pow2_ge_1024: "10 \<le> e \<Longrightarrow> 1024 \<le> pow2 e"
proof -
  assume h: "10 \<le> e"
  then have "(2::rat) ^ 10 \<le> 2 ^ nat e"
    by (intro power_increasing) auto
  with h show ?thesis by (simp add: pow2_def)
qed

lemma binary32_exponent_le_9:
  assumes "\<bar>x\<bar> < 1024"
  shows "binary32_exponent x \<le> 9"
proof (cases "find (\<lambda>e. pow2 e \<le> \<bar>x\<bar>) (rev [-126 .. 127])")
  case None
  then show ?thesis by (simp add: binary32_exponent_def)
next
  case (Some e)
  then have "pow2 e \<le> \<bar>x\<bar>"
    by (auto simp: find_Some_iff)
  with assms have "pow2 e < 1024" by simp
  then have "e \<le> 9"
    using pow2_ge_1024 [of e] by (cases "10 \<le> e") auto
  with Some show ?thesis by (simp add: binary32_exponent_def)
qed

lemma pow2_neg_inverse:
  "e < 0 \<Longrightarrow> of_int m / pow2 e = of_int (m * 2 ^ nat (- e))"
  by (simp add: pow2_def)

lemma round_binary32_between:
  assumes "0 \<le> x" "x \<le> 1000"
  shows "\<exists>r. round_binary32 x = Finite r \<and> of_int \<lfloor>x\<rfloor> \<le> r \<and> r \<le> of_int \<lceil>x\<rceil>"
proof -
  define e where "e = binary32_exponent x - 23"
  define u where "u = pow2 e"
  define n where "n = round_half_even (x / u)"
  have e: "e < 0"
    using binary32_exponent_le_9 [of x] assms by (simp add: e_def)
  have u: "0 < u" by (simp add: u_def pow2_pos)
  have lo: "of_int \<lfloor>x\<rfloor> \<le> of_int n * u"
  proof -
    have "of_int \<lfloor>x\<rfloor> / u \<le> x / u"
      using u by (simp add: divide_right_mono)
    then have "of_int (\<lfloor>x\<rfloor> * 2 ^ nat (- e)) \<le> x / u"
      using pow2_neg_inverse [OF e, of "\<lfloor>x\<rfloor>"] by (simp add: u_def)
    then have "\<lfloor>x\<rfloor> * 2 ^ nat (- e) \<le> \<lfloor>x / u\<rfloor>"
      by (simp add: le_floor_iff)
    also have "\<dots> \<le> n"
      using round_half_even_bounds [of "x / u"] by (simp add: n_def)
    finally have "(of_int (\<lfloor>x\<rfloor> * 2 ^ nat (- e)) :: rat) \<le> of_int n"
      by (simp only: of_int_le_iff)
    then have "of_int \<lfloor>x\<rfloor> / u \<le> of_int n"
      using pow2_neg_inverse [OF e, of "\<lfloor>x\<rfloor>"] by (simp add: u_def)
    then show ?thesis
      using u by (simp add: pos_divide_le_eq)
  qed
  have hi: "of_int n * u \<le> of_int \<lceil>x\<rceil>"
  proof -
    have "x / u \<le> of_int \<lceil>x\<rceil> / u"
      using u by (simp add: divide_right_mono)
    then have "x / u \<le> of_int (\<lceil>x\<rceil> * 2 ^ nat (- e))"
      using pow2_neg_inverse [OF e, of "\<lceil>x\<rceil>"] by (simp add: u_def)
    then have "\<lceil>x / u\<rceil> \<le> \<lceil>x\<rceil> * 2 ^ nat (- e)"
      by (simp add: ceiling_le_iff)
    moreover have "n \<le> \<lceil>x / u\<rceil>"
      using round_half_even_bounds [of "x / u"] by (simp add: n_def)
    ultimately have "n \<le> \<lceil>x\<rceil> * 2 ^ nat (- e)" by simp
    then have "(of_int n :: rat) \<le> of_int (\<lceil>x\<rceil> * 2 ^ nat (- e))"
      by (simp only: of_int_le_iff)
    then have "of_int n \<le> of_int \<lceil>x\<rceil> / u"
      using pow2_neg_inverse [OF e, of "\<lceil>x\<rceil>"] by (simp add: u_def)
    then show ?thesis
      using u by (simp add: pos_le_divide_eq)
  qed
  have "0 \<le> of_int n * u"
    using lo assms by (smt (verit) of_int_0_le_iff zero_le_floor order_trans)
  moreover have "of_int n * u \<le> 1000"
  proof -
    have "\<lceil>x\<rceil> \<le> 1000" using assms by (simp add: ceiling_le_iff)
    then have "(of_int \<lceil>x\<rceil> :: rat) \<le> 1000" by (metis of_int_le_iff of_int_numeral)
    with hi show ?thesis by linarith
  qed
  ultimately have "\<not> FLT_MAX < \<bar>of_int n * u\<bar>"
    by (simp add: FLT_MAX_def)
  then have "round_binary32 x = Finite (of_int n * u)"
    by (simp add: round_binary32_def Let_def n_def u_def e_def)
  with lo hi show ?thesis by simp
qed

lemma pow2_powi: "pow2 e = 2 powi e"
  by (simp add: pow2_def power_int_def power_one_over)

lemma pow2_mono: "a \<le> b \<Longrightarrow> pow2 a \<le> pow2 b"
  by (simp add: pow2_powi power_int_increasing)

lemma rev_upto_nth: "j < nat (b - a + 1) \<Longrightarrow> rev [a .. b] ! j = b - int j"
  by (simp add: rev_nth nth_upto)

lemma length_rev_upto: "length (rev [a .. b]) = nat (b - a + 1)"
  by simp

lemma binary32_exponent_eqI:
  assumes "-126 \<le> e" "e \<le> 127" "pow2 e \<le> \<bar>x\<bar>" "\<bar>x\<bar> < pow2 (e + 1)"
  shows "binary32_exponent x = e"
proof -
  define es :: "int list" where "es = rev [-126 .. 127]"
  have len: "length es = 254"
    unfolding es_def length_rev_upto by simp
  have nth: "es ! j = 127 - int j" if "j < 254" for j
    unfolding es_def using that by (subst rev_upto_nth) simp_all
  have "find (\<lambda>e. pow2 e \<le> \<bar>x\<bar>) es = Some e"
    unfolding find_Some_iff
  proof (intro exI [of _ "nat (127 - e)"] conjI allI impI)
    show "nat (127 - e) < length es"
      using assms(1,2) by (simp add: len)
    show "pow2 (es ! nat (127 - e)) \<le> \<bar>x\<bar>"
      using assms(1,2,3) by (simp add: nth)
    show "e = es ! nat (127 - e)"
      using assms(1,2) by (simp add: nth)
  next
    fix j
    assume j: "j < nat (127 - e)"
    then have "es ! j = 127 - int j"
      using assms(1) by (simp add: nth)
    moreover have "pow2 (e + 1) \<le> pow2 (127 - int j)"
      using j by (intro pow2_mono) linarith
    ultimately show "\<not> pow2 (es ! j) \<le> \<bar>x\<bar>"
      using assms(4) by simp
  qed
  then show ?thesis
    unfolding binary32_exponent_def es_def by simp
qed

subsection \<open>The progress counter\<close>

lemma small_is_int: "0 \<le> v \<Longrightarrow> v \<le> 1000 \<Longrightarrow> INT_MIN \<le> v \<and> v \<le> INT_MAX"
  by (simp add: INT_MIN_def INT_MAX_def)

lemma scaled_fraction_cast:
  assumes "0 \<le> f" "f \<le> 1"
  shows "\<exists>v. static_cast_int (fmul (Finite f) (Finite 1000)) = Some v
           \<and> \<lfloor>f * 1000\<rfloor> \<le> v \<and> v \<le> \<lceil>f * 1000\<rceil>"
proof -
  have x: "0 \<le> f * 1000" "f * 1000 \<le> 1000"
    using assms by simp_all
  obtain r where r: "round_binary32 (f * 1000) = Finite r"
      "of_int \<lfloor>f * 1000\<rfloor> \<le> r" "r \<le> of_int \<lceil>f * 1000\<rceil>"
    using round_binary32_between [OF x] by blast
  have "0 \<le> \<lfloor>f * 1000\<rfloor>" using x by simp
  then have r0: "0 \<le> r"
    using r(2) by (smt (verit) of_int_0_le_iff order_trans)
  then have t: "to_zero r = \<lfloor>r\<rfloor>"
    by (simp add: to_zero_def)
  have lo: "\<lfloor>f * 1000\<rfloor> \<le> \<lfloor>r\<rfloor>"
    using r(2) by (simp add: le_floor_iff)
  have hi: "\<lfloor>r\<rfloor> \<le> \<lceil>f * 1000\<rceil>"
    using r(3) by (simp add: floor_le_iff)
  have c: "\<lceil>f * 1000\<rceil> \<le> 1000"
    using x by (simp add: ceiling_le_iff)
  have "0 \<le> \<lfloor>r\<rfloor>" using r0 by simp
  moreover have "\<lfloor>r\<rfloor> \<le> 1000" using hi c by linarith
  ultimately have "INT_MIN \<le> \<lfloor>r\<rfloor> \<and> \<lfloor>r\<rfloor> \<le> INT_MAX"
    by (rule small_is_int)
  then have "static_cast_int (fmul (Finite f) (Finite 1000)) = Some \<lfloor>r\<rfloor>"
    using r(1) t by simp
  with lo hi show ?thesis by simp
qed

lemma updateProgress_eq:
  "updateProgress progress w =
     (case static_cast_int (fmul progress (Finite 1000)) of
        None \<Rightarrow> None
      | Some v \<Rightarrow> Some (clamp v 1 999, w\<lparr>progressValue := clamp v 1 999\<rparr>))"
  by (simp add: updateProgress_def clamp_def Let_def max_def min_def split: option.split)

lemma incrementProgress_eq:
  "progressValue w \<noteq> INT_MAX \<Longrightarrow>
   incrementProgress w =
     Some (min (progressValue w + 1) 999, w\<lparr>progressValue := min (progressValue w + 1) 999\<rparr>)"
  by (simp add: incrementProgress_def Let_def min_def)

lemma in_range_not_INT_MAX: "v \<le> 999 \<Longrightarrow> v \<noteq> INT_MAX"
  by (simp add: INT_MAX_def)

lemma clamp_range: "1 \<le> clamp v 1 999 \<and> clamp v 1 999 \<le> 999"
  by (simp add: clamp_def)

text \<open>
  C1, as the code has it. For every fraction between 0 and 1 the product with 1000,
  rounded to single precision, converts to an \<^verbatim>\<open>int\<close> \<open>v\<close> by truncation; \<open>v\<close> lies
  between the floor and the ceiling of the exact product; \<^verbatim>\<open>filterProgress\<close> sets the
  counter to \<open>v\<close> clamped into 1 .. 999, whatever the counter was, and hands that value to
  \<^verbatim>\<open>setProgressValue\<close>.
\<close>

theorem filterProgress_sets_truncated:
  assumes "0 \<le> f" "f \<le> 1"
  shows "\<exists>v. static_cast_int (fmul (Finite f) (Finite 1000)) = Some v
           \<and> \<lfloor>f * 1000\<rfloor> \<le> v \<and> v \<le> \<lceil>f * 1000\<rceil>
           \<and> filterProgress (Finite f) w =
               Some (w\<lparr>progressValue := clamp v 1 999,
                       calls := calls w @ [SetProgressValue (clamp v 1 999)]\<rparr>)"
proof -
  obtain v where v: "static_cast_int (fmul (Finite f) (Finite 1000)) = Some v"
      "\<lfloor>f * 1000\<rfloor> \<le> v" "v \<le> \<lceil>f * 1000\<rceil>"
    using scaled_fraction_cast [OF assms] by blast
  have "filterProgress (Finite f) w =
          Some (w\<lparr>progressValue := clamp v 1 999,
                  calls := calls w @ [SetProgressValue (clamp v 1 999)]\<rparr>)"
    using v(1) by (simp add: filterProgress_def updateProgress_eq emit_def)
  with v show ?thesis by blast
qed

theorem filterProgress_sets_truncated_witness:
  "\<exists>v. static_cast_int (fmul (Finite (1 / 2)) (Finite 1000)) = Some v
     \<and> \<lfloor>(1 / 2 :: rat) * 1000\<rfloor> \<le> v \<and> v \<le> \<lceil>(1 / 2 :: rat) * 1000\<rceil>
     \<and> filterProgress (Finite (1 / 2)) (new_task\<lparr>progressValue := 700\<rparr>) =
         Some (new_task\<lparr>progressValue := 500, calls := [SetProgressValue 500]\<rparr>)"
proof -
  obtain v where v: "\<lfloor>(1 / 2 :: rat) * 1000\<rfloor> \<le> v" "v \<le> \<lceil>(1 / 2 :: rat) * 1000\<rceil>"
    "static_cast_int (fmul (Finite (1 / 2)) (Finite 1000)) = Some v"
    "filterProgress (Finite (1 / 2)) (new_task\<lparr>progressValue := 700\<rparr>) =
       Some (new_task\<lparr>progressValue := 700, progressValue := clamp v 1 999,
         calls := calls (new_task\<lparr>progressValue := 700\<rparr>) @ [SetProgressValue (clamp v 1 999)]\<rparr>)"
    using filterProgress_sets_truncated [of "1 / 2" "new_task\<lparr>progressValue := 700\<rparr>"] by auto
  from v(1,2) have "v = 500" by simp
  with v(3,4) show ?thesis by (simp add: clamp_def new_task_def)
qed

text \<open>
  C1 as the specification words it fails: 513/1024 is a single precision number in
  [0, 1] whose product with 1000 is exactly 500.9765625; the code truncates it to 500,
  rounding gives 501.
\<close>

theorem filterProgress_round_counterexample:
  "is_binary32 (513 / 1024) \<and> (0 :: rat) \<le> 513 / 1024 \<and> (513 / 1024 :: rat) \<le> 1
   \<and> map_option progressValue (filterProgress (Finite (513 / 1024)) new_task) = Some 500
   \<and> spec_progress (513 / 1024) = 501"
proof -
  have "binary32_exponent (513 / 1024) = -1"
    by (rule binary32_exponent_eqI) (simp_all add: pow2_def)
  then have a: "is_binary32 (513 / 1024)"
    by (simp add: is_binary32_def round_binary32_def round_half_even_def pow2_def FLT_MAX_def)
  have "binary32_exponent (64125 / 128) = 8"
    by (rule binary32_exponent_eqI) (simp_all add: pow2_def)
  then have "fmul (Finite (513 / 1024)) (Finite 1000) = Finite (64125 / 128)"
    by (simp add: round_binary32_def round_half_even_def pow2_def FLT_MAX_def)
  then have b: "map_option progressValue (filterProgress (Finite (513 / 1024)) new_task) = Some 500"
    by (simp add: filterProgress_def updateProgress_eq to_zero_def INT_MIN_def INT_MAX_def
        clamp_def emit_def floor_eq_iff)
  have c: "spec_progress (513 / 1024) = 501"
    by (simp add: spec_progress_def clamp_def round_def floor_eq_iff)
  from a b c show ?thesis by simp
qed

subsection \<open>The slots, one event at a time\<close>

lemma filterStarted_eq:
  "progressValue w \<noteq> INT_MAX \<Longrightarrow>
   filterStarted name comment w =
     Some (w\<lparr>progressValue := min (progressValue w + 1) 999,
             calls := calls w @ [SetProgressValueAndText (min (progressValue w + 1) 999) name]\<rparr>)"
  by (simp add: filterStarted_def incrementProgress_eq emit_def)

lemma filterFinished_eq:
  "progressValue w \<noteq> INT_MAX \<Longrightarrow>
   filterFinished name w =
     Some (w\<lparr>progressValue := min (progressValue w + 1) 999,
             calls := calls w @
               [SetProgressValueAndText (min (progressValue w + 1) 999) (''Finished: '' @ name)]\<rparr>)"
  by (simp add: filterFinished_def incrementProgress_eq emit_def)

lemma filterProgress_eq:
  "static_cast_int (fmul progress (Finite 1000)) = Some v \<Longrightarrow>
   filterProgress progress w =
     Some (w\<lparr>progressValue := clamp v 1 999,
             calls := calls w @ [SetProgressValue (clamp v 1 999)]\<rparr>)"
  by (simp add: filterProgress_def updateProgress_eq emit_def)

lemma pauseProcess_calls:
  "\<exists>cs. calls (pauseProcess unix rc w) = calls w @ cs \<and> list_all watcher_call cs
     \<and> progressValue (pauseProcess unix rc w) = progressValue w"
  by (simp add: pauseProcess_def emit_def Let_def)

lemma resumeProcess_calls:
  "\<exists>cs. calls (resumeProcess unix rc w) = calls w @ cs \<and> list_all watcher_call cs
     \<and> progressValue (resumeProcess unix rc w) = progressValue w"
  by (simp add: resumeProcess_def emit_def Let_def)

text \<open>
  Every event with a defined conversion is handled, keeps the counter between 0 and 999
  when it was there, and adds only calls a slot can make.
\<close>

lemma deliver_step:
  assumes "0 \<le> progressValue w" "progressValue w \<le> 999" "convertible ev"
  shows "\<exists>w' cs. deliver unix location ev w = Some w' \<and> calls w' = calls w @ cs
           \<and> list_all watcher_call cs
           \<and> 0 \<le> progressValue w' \<and> progressValue w' \<le> 999"
proof (cases ev)
  case (FilterStartedSignal name comment)
  then show ?thesis
    using assms(1,2) by (simp add: filterStarted_eq in_range_not_INT_MAX)
next
  case (FilterProgressSignal progress)
  with assms(3) obtain v where "static_cast_int (fmul progress (Finite 1000)) = Some v"
    by auto
  with FilterProgressSignal show ?thesis
    using clamp_range [of v] by (simp add: filterProgress_eq)
next
  case (FilterFinishedSignal name)
  then show ?thesis
    using assms(1,2) by (simp add: filterFinished_eq in_range_not_INT_MAX)
next
  case (FilterXmlErrorSignal err)
  then show ?thesis
    using assms(1,2) by (simp add: filterXmlError_def emit_def)
next
  case CanceledSignal
  then show ?thesis
    using assms(1,2) by (simp add: cancelProcess_def emit_def)
next
  case (ResumedSignal rc)
  then show ?thesis
    using assms(1,2) resumeProcess_calls [of unix rc w] by auto
next
  case (PollPauseTimeout rc)
  then show ?thesis
    using assms(1,2) pauseProcess_calls [of unix rc w] by auto
next
  case (CallerSetsPaused b)
  then show ?thesis
    using assms(1,2) by simp
next
  case CallerCancels
  then show ?thesis
    using assms(1,2) by simp
qed

lemma localLoop_exec_steps:
  assumes "0 \<le> progressValue w" "progressValue w \<le> 999" "list_all convertible evs"
  shows "\<exists>w' cs. localLoop_exec unix location evs w = Some w' \<and> calls w' = calls w @ cs
           \<and> list_all watcher_call cs
           \<and> 0 \<le> progressValue w' \<and> progressValue w' \<le> 999"
  using assms
proof (induction evs arbitrary: w)
  case Nil
  then show ?case by simp
next
  case (Cons ev evs)
  from Cons.prems obtain w1 cs1 where w1:
      "deliver unix location ev w = Some w1" "calls w1 = calls w @ cs1"
      "list_all watcher_call cs1" "0 \<le> progressValue w1" "progressValue w1 \<le> 999"
    using deliver_step [of w ev unix location] by auto
  from Cons.prems have "list_all convertible evs" by simp
  from Cons.IH [OF w1(4,5) this] obtain w' cs where w':
      "localLoop_exec unix location evs w1 = Some w'" "calls w' = calls w1 @ cs"
      "list_all watcher_call cs" "0 \<le> progressValue w'" "progressValue w' \<le> 999"
    by blast
  have "localLoop_exec unix location (ev # evs) w = Some w'"
    using w1(1) w'(1) by simp
  moreover have "calls w' = calls w @ (cs1 @ cs)"
    using w1(2) w'(2) by simp
  moreover have "list_all watcher_call (cs1 @ cs)"
    using w1(3) w'(3) by simp
  ultimately show ?case
    using w'(4,5) by blast
qed

subsection \<open>What the calls of the slots cannot be\<close>

lemma watcher_calls_progress:
  "list_all watcher_call cs \<Longrightarrow> list_all (\<lambda>v. 1 \<le> v \<and> v \<le> 999) (progress_requests cs)"
proof (induction cs)
  case Nil
  then show ?case by (simp add: progress_requests_def)
next
  case (Cons c cs)
  then show ?case by (cases c) (simp_all add: progress_requests_def)
qed

lemma watcher_calls_no_exception:
  "list_all watcher_call cs \<Longrightarrow> reported_exceptions cs = []"
proof (induction cs)
  case Nil
  then show ?case by (simp add: reported_exceptions_def)
next
  case (Cons c cs)
  then show ?case by (cases c) (simp_all add: reported_exceptions_def)
qed

lemma watcher_calls_no_finish:
  "list_all watcher_call cs \<Longrightarrow> count_list cs ReportFinished = 0"
proof (induction cs)
  case Nil
  then show ?case by simp
next
  case (Cons c cs)
  then show ?case by (cases c) simp_all
qed

lemma reported_exceptions_append:
  "reported_exceptions (xs @ ys) = reported_exceptions xs @ reported_exceptions ys"
  by (simp add: reported_exceptions_def)

subsection \<open>The calls of one run\<close>

text \<open>
  The exception \<^verbatim>\<open>run()\<close> reports for a process, and the text its last read of the
  standard error channel returns: nothing is left to read when the exception of a
  non-zero exit code has taken it.
\<close>

lemma report_outcome_eq:
  "report_outcome location process w =
     (if error process \<noteq> UnknownError then
        (w\<lparr>calls := calls w @
            [ReportException (RunException location (exitCode process) (errorString process))]\<rparr>,
         process)
      else if exitCode process \<noteq> 0 then
        (w\<lparr>calls := calls w @
            [ReportException (RunException location (exitCode process) (standardError process))]\<rparr>,
         process\<lparr>standardError := []\<rparr>)
      else (w, process))"
  by (simp add: report_outcome_def readAllStandardError_def emit_def)

lemma run_canceled:
  "canceled w \<Longrightarrow>
   run unix location args evs process w = Some (w\<lparr>calls := calls w @ [ReportFinished]\<rparr>)"
  by (simp add: run_def emit_def)

lemma run_trace:
  assumes "\<not> canceled w" "list_all convertible evs"
  shows "\<exists>w' cs. run unix location args evs process w = Some w'
           \<and> list_all watcher_call cs
           \<and> calls w' =
               calls w @ [ProcessStart location args, SetProgressRange 0 1000]
               @ (if unix then [TimerStart 500] else []) @ cs
               @ map ReportException
                   (if error process \<noteq> UnknownError then
                      [RunException location (exitCode process) (errorString process)]
                    else if exitCode process \<noteq> 0 then
                      [RunException location (exitCode process) (standardError process)]
                    else [])
               @ [SetProgressValueAndText 1000
                    (if error process = UnknownError \<and> exitCode process \<noteq> 0 then []
                     else standardError process),
                  ReportFinished]"
proof -
  define w2 where
    "w2 = ctkCmdLineModuleProcessWatcher unix (emit (ProcessStart location args) w)"
  have c2: "calls w2 =
      calls w @ [ProcessStart location args, SetProgressRange 0 1000]
      @ (if unix then [TimerStart 500] else [])"
    by (simp add: w2_def ctkCmdLineModuleProcessWatcher_def emit_def Let_def)
  have p2: "progressValue w2 = 0"
    by (simp add: w2_def ctkCmdLineModuleProcessWatcher_def emit_def Let_def)
  obtain w3 cs where w3: "localLoop_exec unix location evs w2 = Some w3"
      "calls w3 = calls w2 @ cs" "list_all watcher_call cs"
    using localLoop_exec_steps [of w2 evs unix location] p2 assms(2) by auto
  have "\<exists>w'. run unix location args evs process w = Some w'
      \<and> calls w' = calls w3
        @ map ReportException
            (if error process \<noteq> UnknownError then
               [RunException location (exitCode process) (errorString process)]
             else if exitCode process \<noteq> 0 then
               [RunException location (exitCode process) (standardError process)]
             else [])
        @ [SetProgressValueAndText 1000
             (if error process = UnknownError \<and> exitCode process \<noteq> 0 then []
              else standardError process),
           ReportFinished]"
  proof -
    have "run unix location args evs process w =
        (let (w4, process1) = report_outcome location process w3;
             (text, process2) = readAllStandardError process1;
             w5 = emit (SetProgressValueAndText 1000 text) w4
         in Some (emit ReportFinished w5))"
      using assms(1) w3(1) by (simp add: run_def w2_def Let_def)
    then show ?thesis
      by (simp add: report_outcome_eq readAllStandardError_def emit_def Let_def)
  qed
  then show ?thesis
    using w3(2,3) c2 by auto
qed

lemma convertible_fraction:
  "0 \<le> f \<Longrightarrow> f \<le> 1 \<Longrightarrow> convertible (FilterProgressSignal (Finite f))"
  using scaled_fraction_cast [of f] by auto

lemma list_all_take: "list_all P xs \<Longrightarrow> list_all P (take n xs)"
  by (auto simp: list_all_iff dest: in_set_takeD)

subsection \<open>The claims about progress values\<close>

text \<open>
  C2. The constructor seeds the counter with 0. Whatever events the loop delivers (with
  a defined conversion), after any number of them the counter is between 0 and 999; the
  progress values a run hands to the future are first the event-driven ones, each
  between 1 and 999, and then 1000, once, after the event loop has returned. A run that
  finds the task canceled hands over none.
\<close>

theorem progress_in_range:
  assumes "list_all convertible evs"
  shows "progressValue (ctkCmdLineModuleProcessWatcher unix w) = 0
       \<and> (\<exists>wn. localLoop_exec unix location (take n evs)
                   (ctkCmdLineModuleProcessWatcher unix w) = Some wn
                \<and> 0 \<le> progressValue wn \<and> progressValue wn \<le> 999)
       \<and> (\<exists>w' vs. run unix location args evs process w = Some w'
                \<and> list_all (\<lambda>v. 1 \<le> v \<and> v \<le> 999) vs
                \<and> progress_requests (calls w') =
                    progress_requests (calls w) @ (if canceled w then [] else vs @ [1000]))"
proof -
  let ?w0 = "ctkCmdLineModuleProcessWatcher unix w"
  have seed: "progressValue ?w0 = 0"
    by (simp add: ctkCmdLineModuleProcessWatcher_def emit_def Let_def)
  have "list_all convertible (take n evs)"
    using assms by (rule list_all_take)
  then have loop: "\<exists>wn. localLoop_exec unix location (take n evs) ?w0 = Some wn
      \<and> 0 \<le> progressValue wn \<and> progressValue wn \<le> 999"
    using localLoop_exec_steps [of ?w0 "take n evs" unix location] seed by auto
  have "\<exists>w' vs. run unix location args evs process w = Some w'
      \<and> list_all (\<lambda>v. 1 \<le> v \<and> v \<le> 999) vs
      \<and> progress_requests (calls w') =
          progress_requests (calls w) @ (if canceled w then [] else vs @ [1000])"
  proof (cases "canceled w")
    case True
    then have "run unix location args evs process w =
        Some (w\<lparr>calls := calls w @ [ReportFinished]\<rparr>)"
      by (rule run_canceled)
    with True show ?thesis
      by (intro exI [of _ "w\<lparr>calls := calls w @ [ReportFinished]\<rparr>"] exI [of _ "[]"])
        (simp add: progress_requests_def)
  next
    case False
    from run_trace [OF False assms, of unix location args process]
    obtain w' cs where w': "run unix location args evs process w = Some w'"
        "list_all watcher_call cs"
        "progress_requests (calls w') =
           progress_requests (calls w) @ progress_requests cs @ [1000]"
      by (auto simp: progress_requests_def)
    from w'(2) have "list_all (\<lambda>v. 1 \<le> v \<and> v \<le> 999) (progress_requests cs)"
      by (rule watcher_calls_progress)
    with w'(1,3) False show ?thesis by auto
  qed
  with seed loop show ?thesis by blast
qed

theorem progress_in_range_witness:
  "progressValue (ctkCmdLineModuleProcessWatcher True new_task) = 0
   \<and> (\<exists>wn. localLoop_exec True ''module''
               (take 2 [FilterStartedSignal ''f'' [], FilterProgressSignal (Finite (1 / 2)),
                        FilterFinishedSignal ''f''])
               (ctkCmdLineModuleProcessWatcher True new_task) = Some wn
            \<and> 0 \<le> progressValue wn \<and> progressValue wn \<le> 999)
   \<and> (\<exists>w' vs. run True ''module'' [] 
                  [FilterStartedSignal ''f'' [], FilterProgressSignal (Finite (1 / 2)),
                   FilterFinishedSignal ''f'']
                  \<lparr>error = UnknownError, exitCode = 0, errorString = [], standardError = []\<rparr>
                  new_task = Some w'
            \<and> list_all (\<lambda>v. 1 \<le> v \<and> v \<le> 999) vs
            \<and> progress_requests (calls w') = vs @ [1000])"
proof -
  have "list_all convertible
      [FilterStartedSignal ''f'' [], FilterProgressSignal (Finite (1 / 2)),
       FilterFinishedSignal ''f'']"
    using convertible_fraction [of "1 / 2"] by simp
  from progress_in_range [OF this, of True new_task "''module''" 2 "[]"
      "\<lparr>error = UnknownError, exitCode = 0, errorString = [], standardError = []\<rparr>"]
  show ?thesis
    by (simp add: new_task_def progress_requests_def)
qed

lemma started_or_finished_steps:
  assumes "0 \<le> progressValue w" "progressValue w \<le> 999" "list_all started_or_finished evs"
  shows "\<exists>w'. localLoop_exec unix location evs w = Some w'
           \<and> progressValue w' = min (progressValue w + int (length evs)) 999"
  using assms
proof (induction evs arbitrary: w)
  case Nil
  then show ?case by simp
next
  case (Cons ev evs)
  let ?w1 = "w\<lparr>progressValue := min (progressValue w + 1) 999\<rparr>"
  from Cons.prems(3) have sf: "started_or_finished ev" and rest: "list_all started_or_finished evs"
    by simp_all
  from Cons.prems(1,2) have ok: "progressValue w \<noteq> INT_MAX"
    by (simp add: in_range_not_INT_MAX)
  from sf obtain w1 where w1: "deliver unix location ev w = Some w1"
      "progressValue w1 = min (progressValue w + 1) 999"
    using filterStarted_eq [OF ok] filterFinished_eq [OF ok] by (cases ev) simp_all
  have "0 \<le> progressValue w1" "progressValue w1 \<le> 999"
    using w1(2) Cons.prems(1) by simp_all
  from Cons.IH [OF this rest] obtain w' where w':
      "localLoop_exec unix location evs w1 = Some w'"
      "progressValue w' = min (progressValue w1 + int (length evs)) 999"
    by blast
  have "localLoop_exec unix location (ev # evs) w = Some w'"
    using w1(1) w'(1) by simp
  moreover have "progressValue w' = min (progressValue w + int (length (ev # evs))) 999"
    using w'(2) w1(2) by simp
  ultimately show ?case by blast
qed

text \<open>
  C3. With the counter anywhere in 0 .. 999, \<^verbatim>\<open>filterStarted\<close> and
  \<^verbatim>\<open>filterFinished\<close> each move it to the smaller of its successor and 999 and hand
  that value to the future, \<^verbatim>\<open>filterStarted\<close> with the filter's name as the text and
  \<^verbatim>\<open>filterFinished\<close> with \<open>Finished: \<close> before the name; any number of such events
  in a row adds their number to the counter, up to 999.
\<close>

theorem started_finished_increment:
  assumes "0 \<le> progressValue w" "progressValue w \<le> 999" "list_all started_or_finished evs"
  shows "filterStarted name comment w =
           Some (w\<lparr>progressValue := min (progressValue w + 1) 999,
                   calls := calls w @
                     [SetProgressValueAndText (min (progressValue w + 1) 999) name]\<rparr>)
       \<and> filterFinished name w =
           Some (w\<lparr>progressValue := min (progressValue w + 1) 999,
                   calls := calls w @
                     [SetProgressValueAndText (min (progressValue w + 1) 999)
                        (''Finished: '' @ name)]\<rparr>)
       \<and> (\<exists>w'. localLoop_exec unix location evs w = Some w'
                \<and> progressValue w' = min (progressValue w + int (length evs)) 999)"
proof -
  from assms(1,2) have ok: "progressValue w \<noteq> INT_MAX"
    by (simp add: in_range_not_INT_MAX)
  show ?thesis
    using filterStarted_eq [OF ok, of name comment] filterFinished_eq [OF ok, of name]
      started_or_finished_steps [OF assms, of unix location]
    by simp
qed

theorem started_finished_increment_witness:
  "filterStarted ''blur'' [] (new_task\<lparr>progressValue := 998\<rparr>) =
     Some (new_task\<lparr>progressValue := 999,
             calls := [SetProgressValueAndText 999 ''blur'']\<rparr>)
   \<and> filterFinished ''blur'' (new_task\<lparr>progressValue := 998\<rparr>) =
     Some (new_task\<lparr>progressValue := 999,
             calls := [SetProgressValueAndText 999 ''Finished: blur'']\<rparr>)
   \<and> (\<exists>w'. localLoop_exec True ''module''
               [FilterStartedSignal ''blur'' [], FilterFinishedSignal ''blur'',
                FilterStartedSignal ''edge'' []]
               (new_task\<lparr>progressValue := 998\<rparr>) = Some w'
            \<and> progressValue w' = 999)"
proof -
  have a: "0 \<le> progressValue (new_task\<lparr>progressValue := 998\<rparr>)"
    and b: "progressValue (new_task\<lparr>progressValue := 998\<rparr>) \<le> 999"
    by simp_all
  have c: "list_all started_or_finished
      [FilterStartedSignal ''blur'' [], FilterFinishedSignal ''blur'',
       FilterStartedSignal ''edge'' []]"
    by simp
  from started_finished_increment [OF a b c, of "''blur''" "[]" True "''module''"]
  show ?thesis
    by (simp add: new_task_def del: localLoop_exec.simps)
qed

subsection \<open>The claims about cancellation and the outcome\<close>

text \<open>
  C4. A run that finds the future canceled makes one call, \<^verbatim>\<open>reportFinished()\<close>,
  and returns: no process is started and the future stays canceled. So does a task that
  is canceled between \<^verbatim>\<open>start()\<close> and \<^verbatim>\<open>run()\<close>. The slot behind the
  \<^verbatim>\<open>canceled()\<close> signal makes one call, \<^verbatim>\<open>process.terminate()\<close>, and changes
  nothing else.
\<close>

theorem cancel_skips_process:
  assumes "canceled w"
  shows "run unix location args evs process w = Some (w\<lparr>calls := calls w @ [ReportFinished]\<rparr>)
       \<and> execute unix location args True evs process v =
           Some (v\<lparr>canceled := True,
                   calls := calls v @
                     [SetRunnable, ReportStarted, ThreadPoolStart 0, ReportFinished]\<rparr>)
       \<and> cancelProcess v = v\<lparr>calls := calls v @ [ProcessTerminate]\<rparr>
       \<and> deliver unix location CanceledSignal v =
           Some (v\<lparr>calls := calls v @ [ProcessTerminate]\<rparr>)"
proof -
  have "execute unix location args True evs process v =
      Some (v\<lparr>canceled := True,
              calls := calls v @ [SetRunnable, ReportStarted, ThreadPoolStart 0, ReportFinished]\<rparr>)"
    by (simp add: execute_def start_def run_def emit_def Let_def)
  then show ?thesis
    using run_canceled [OF assms, of unix location args evs process]
    by (simp add: cancelProcess_def emit_def)
qed

theorem cancel_skips_process_witness:
  "run True ''module'' [''--in'', ''a.png'']
     [FilterStartedSignal ''blur'' []]
     \<lparr>error = UnknownError, exitCode = 0, errorString = [], standardError = []\<rparr>
     (new_task\<lparr>canceled := True\<rparr>) =
   Some (new_task\<lparr>canceled := True, calls := [ReportFinished]\<rparr>)
   \<and> execute True ''module'' [''--in'', ''a.png'']
     True [FilterStartedSignal ''blur'' []]
     \<lparr>error = UnknownError, exitCode = 0, errorString = [], standardError = []\<rparr>
     new_task =
   Some (new_task\<lparr>canceled := True,
           calls := [SetRunnable, ReportStarted, ThreadPoolStart 0, ReportFinished]\<rparr>)
   \<and> deliver True ''module'' CanceledSignal new_task =
       Some (new_task\<lparr>calls := [ProcessTerminate]\<rparr>)"
  using cancel_skips_process [of "new_task\<lparr>canceled := True\<rparr>" True "''module''"
      "[''--in'', ''a.png'']" "[FilterStartedSignal ''blur'' []]"
      "\<lparr>error = UnknownError, exitCode = 0, errorString = [], standardError = []\<rparr>"
      new_task]
  by (simp add: new_task_def)

text \<open>
  C5. A run that is not canceled reports at most one exception: for an error of the
  process the one with its exit code and its error string, otherwise for an exit code
  other than zero the one with the exit code and the text of the standard error channel,
  and none for a clean exit with code zero.
\<close>

theorem outcome_exception:
  assumes "\<not> canceled w" "list_all convertible evs"
  shows "\<exists>w'. run unix location args evs process w = Some w'
           \<and> reported_exceptions (calls w') =
               reported_exceptions (calls w) @
               (if error process \<noteq> UnknownError then
                  [RunException location (exitCode process) (errorString process)]
                else if exitCode process \<noteq> 0 then
                  [RunException location (exitCode process) (standardError process)]
                else [])"
proof -
  from run_trace [OF assms, of unix location args process]
  obtain w' cs where w': "run unix location args evs process w = Some w'"
      "list_all watcher_call cs"
      "reported_exceptions (calls w') =
         reported_exceptions (calls w) @ reported_exceptions cs @
         (if error process \<noteq> UnknownError then
            [RunException location (exitCode process) (errorString process)]
          else if exitCode process \<noteq> 0 then
            [RunException location (exitCode process) (standardError process)]
          else [])"
    by (auto simp: reported_exceptions_def)
  from w'(2) have "reported_exceptions cs = []"
    by (rule watcher_calls_no_exception)
  with w'(1,3) show ?thesis by simp
qed

theorem outcome_exception_witness:
  "(\<exists>w'. run True ''module'' [] [FilterXmlErrorSignal ''bad tag'']
           \<lparr>error = Crashed, exitCode = 11, errorString = ''Process crashed'',
              standardError = ''trace''\<rparr> new_task = Some w'
        \<and> reported_exceptions (calls w') = [RunException ''module'' 11 ''Process crashed''])
   \<and> (\<exists>w'. run True ''module'' [] [FilterXmlErrorSignal ''bad tag'']
           \<lparr>error = UnknownError, exitCode = 2, errorString = ''Unknown error'',
              standardError = ''boom''\<rparr> new_task = Some w'
        \<and> reported_exceptions (calls w') = [RunException ''module'' 2 ''boom''])
   \<and> (\<exists>w'. run True ''module'' [] [FilterXmlErrorSignal ''bad tag'']
           \<lparr>error = UnknownError, exitCode = 0, errorString = ''Unknown error'',
              standardError = ''warn''\<rparr> new_task = Some w'
        \<and> reported_exceptions (calls w') = [])"
proof -
  have n: "\<not> canceled new_task"
    by (simp add: new_task_def)
  have e: "list_all convertible [FilterXmlErrorSignal ''bad tag'']"
    by simp
  have c: "reported_exceptions (calls new_task) = []"
    by (simp add: new_task_def reported_exceptions_def)
  show ?thesis
    using outcome_exception [OF n e, of True "''module''" "[]"
        "\<lparr>error = Crashed, exitCode = 11, errorString = ''Process crashed'',
           standardError = ''trace''\<rparr>"]
      outcome_exception [OF n e, of True "''module''" "[]"
        "\<lparr>error = UnknownError, exitCode = 2, errorString = ''Unknown error'',
           standardError = ''boom''\<rparr>"]
      outcome_exception [OF n e, of True "''module''" "[]"
        "\<lparr>error = UnknownError, exitCode = 0, errorString = ''Unknown error'',
           standardError = ''warn''\<rparr>"]
    by (simp add: c)
qed

subsection \<open>The claims about pausing and resuming\<close>

text \<open>
  C6, as the code has it. \<^verbatim>\<open>pauseProcess\<close> changes nothing when \<open>processPaused\<close> is
  set or the future is not paused, and nothing outside \<^verbatim>\<open>Q_OS_UNIX\<close>. Otherwise it
  sends \<^verbatim>\<open>SIGSTOP\<close>; when that fails it clears the paused flag of the future and
  leaves \<open>processPaused\<close> unset, when it succeeds it sets \<open>processPaused\<close>. A second
  call right after the first changes nothing. It returns normally in every case, and it
  never writes a diagnostic.
\<close>

theorem pauseProcess_rollback:
  "(processPaused w \<or> \<not> paused w \<longrightarrow> pauseProcess unix rc w = w)
   \<and> (\<not> processPaused w \<and> paused w \<and> rc \<noteq> 0 \<longrightarrow>
        pauseProcess True rc w =
          w\<lparr>paused := False, calls := calls w @ [Kill SIGSTOP, SetPaused False]\<rparr>)
   \<and> (\<not> processPaused w \<and> paused w \<longrightarrow>
        pauseProcess True 0 w =
          w\<lparr>processPaused := True, calls := calls w @ [Kill SIGSTOP]\<rparr>)
   \<and> pauseProcess False rc w = w
   \<and> pauseProcess unix rc' (pauseProcess unix rc w) = pauseProcess unix rc w
   \<and> logged (calls (pauseProcess unix rc w)) = logged (calls w)"
  by (simp add: pauseProcess_def emit_def logged_def Let_def)

theorem pauseProcess_rollback_witness:
  "pauseProcess True 0 (new_task\<lparr>paused := True, processPaused := True\<rparr>) =
     new_task\<lparr>paused := True, processPaused := True\<rparr>
   \<and> pauseProcess True (-1) (new_task\<lparr>paused := True\<rparr>) =
       new_task\<lparr>calls := [Kill SIGSTOP, SetPaused False]\<rparr>
   \<and> pauseProcess True 0 (new_task\<lparr>paused := True\<rparr>) =
       new_task\<lparr>paused := True, processPaused := True, calls := [Kill SIGSTOP]\<rparr>"
  using pauseProcess_rollback [of "new_task\<lparr>paused := True, processPaused := True\<rparr>" True 0]
    pauseProcess_rollback [of "new_task\<lparr>paused := True\<rparr>" True "-1"]
  by (simp add: new_task_def)

text \<open>
  C6 as the specification words it fails on the diagnostic: with the future paused and
  \<^verbatim>\<open>::kill\<close> returning -1, the calls are the signal and \<^verbatim>\<open>setPaused(false)\<close>, and
  nothing is logged.
\<close>

theorem pauseProcess_log_counterexample:
  "calls (pauseProcess True (-1) (new_task\<lparr>paused := True\<rparr>)) = [Kill SIGSTOP, SetPaused False]
   \<and> logged (calls (pauseProcess True (-1) (new_task\<lparr>paused := True\<rparr>))) = []"
  by (simp add: pauseProcess_def emit_def logged_def new_task_def)

text \<open>
  C9. \<^verbatim>\<open>resumeProcess\<close> changes nothing when \<open>processPaused\<close> is not set, and
  nothing outside \<^verbatim>\<open>Q_OS_UNIX\<close>. When it is set, under \<^verbatim>\<open>Q_OS_UNIX\<close>, it sends
  \<^verbatim>\<open>SIGCONT\<close>; when that fails it sets the paused flag of the future again and
  \<open>processPaused\<close> stays set, when it succeeds it clears \<open>processPaused\<close>. So
  \<open>processPaused\<close> is cleared by a successful signal only.
\<close>

theorem resumeProcess_rollback:
  "(\<not> processPaused w \<longrightarrow> resumeProcess unix rc w = w)
   \<and> (processPaused w \<and> rc \<noteq> 0 \<longrightarrow>
        resumeProcess True rc w =
          w\<lparr>paused := True, calls := calls w @ [Kill SIGCONT, SetPaused True]\<rparr>)
   \<and> (processPaused w \<longrightarrow>
        resumeProcess True 0 w =
          w\<lparr>processPaused := False, calls := calls w @ [Kill SIGCONT]\<rparr>)
   \<and> resumeProcess False rc w = w
   \<and> (processPaused w \<and> \<not> processPaused (resumeProcess unix rc w) \<longrightarrow> unix \<and> rc = 0)"
  by (simp add: resumeProcess_def emit_def Let_def)

theorem resumeProcess_rollback_witness:
  "resumeProcess True 0 new_task = new_task
   \<and> resumeProcess True (-1) (new_task\<lparr>processPaused := True\<rparr>) =
       new_task\<lparr>paused := True, processPaused := True,
         calls := [Kill SIGCONT, SetPaused True]\<rparr>
   \<and> resumeProcess True 0 (new_task\<lparr>processPaused := True\<rparr>) =
       new_task\<lparr>calls := [Kill SIGCONT]\<rparr>"
  using resumeProcess_rollback [of new_task True 0]
    resumeProcess_rollback [of "new_task\<lparr>processPaused := True\<rparr>" True "-1"]
    resumeProcess_rollback [of "new_task\<lparr>processPaused := True\<rparr>" True 0]
  by (simp add: new_task_def)

subsection \<open>The claims about the order of things\<close>

text \<open>
  C7, as the code has it. With the counter anywhere in 0 .. 999, an event that is not a
  \<^verbatim>\<open>filterProgress\<close> signal is handled; a \<^verbatim>\<open>filterStarted\<close> or
  \<^verbatim>\<open>filterFinished\<close> signal moves the counter to the smaller of its successor and
  999, every other such event leaves the counter exactly as it was; so the counter is
  never lowered.
\<close>

theorem other_events_never_lower:
  assumes "0 \<le> progressValue w" "progressValue w \<le> 999"
    "\<forall>progress. ev \<noteq> FilterProgressSignal progress"
  shows "\<exists>w'. deliver unix location ev w = Some w'
           \<and> progressValue w' =
               (if started_or_finished ev then min (progressValue w + 1) 999
                else progressValue w)
           \<and> progressValue w \<le> progressValue w'"
proof (cases ev)
  case (FilterStartedSignal name comment)
  then show ?thesis
    using assms(1,2) by (simp add: filterStarted_eq in_range_not_INT_MAX)
next
  case (FilterProgressSignal progress)
  with assms(3) show ?thesis by simp
next
  case (FilterFinishedSignal name)
  then show ?thesis
    using assms(1,2) by (simp add: filterFinished_eq in_range_not_INT_MAX)
next
  case (FilterXmlErrorSignal err)
  then show ?thesis by (simp add: filterXmlError_def emit_def)
next
  case CanceledSignal
  then show ?thesis by (simp add: cancelProcess_def emit_def)
next
  case (ResumedSignal rc)
  then show ?thesis
    using resumeProcess_calls [of unix rc w] by auto
next
  case (PollPauseTimeout rc)
  then show ?thesis
    using pauseProcess_calls [of unix rc w] by auto
next
  case (CallerSetsPaused b)
  then show ?thesis by simp
next
  case CallerCancels
  then show ?thesis by simp
qed

theorem other_events_never_lower_witness:
  "(\<exists>w'. deliver True ''module'' (FilterFinishedSignal ''blur'')
           (new_task\<lparr>progressValue := 500\<rparr>) = Some w'
        \<and> progressValue w' = 501)
   \<and> (\<exists>w'. deliver True ''module'' (FilterXmlErrorSignal ''bad tag'')
           (new_task\<lparr>progressValue := 500\<rparr>) = Some w'
        \<and> progressValue w' = 500)"
proof -
  have a: "0 \<le> progressValue (new_task\<lparr>progressValue := 500\<rparr>)"
    and b: "progressValue (new_task\<lparr>progressValue := 500\<rparr>) \<le> 999"
    by simp_all
  have c: "\<forall>progress. FilterFinishedSignal ''blur'' \<noteq> FilterProgressSignal progress"
    and d: "\<forall>progress. FilterXmlErrorSignal ''bad tag'' \<noteq> FilterProgressSignal progress"
    by simp_all
  from other_events_never_lower [OF a b c, of True "''module''"]
    other_events_never_lower [OF a b d, of True "''module''"]
  show ?thesis
    by (auto simp del: deliver.simps)
qed

lemma round_binary32_500: "round_binary32 500 = Finite 500"
proof -
  have "binary32_exponent 500 = 8"
    by (rule binary32_exponent_eqI) (simp_all add: pow2_def)
  then show ?thesis
    by (simp add: round_binary32_def round_half_even_def pow2_def FLT_MAX_def)
qed

lemma round_binary32_250: "round_binary32 250 = Finite 250"
proof -
  have "binary32_exponent 250 = 7"
    by (rule binary32_exponent_eqI) (simp_all add: pow2_def)
  then show ?thesis
    by (simp add: round_binary32_def round_half_even_def pow2_def FLT_MAX_def)
qed

text \<open>
  C7 as the specification words it fails: in a running task, a progress of 0.5 followed
  by a progress of 0.25 takes the counter from 500 down to 250.
\<close>

theorem progress_decreases_counterexample:
  "map_option progressValue
     (localLoop_exec True ''module'' [FilterProgressSignal (Finite (1 / 2))]
        (ctkCmdLineModuleProcessWatcher True new_task)) = Some 500
   \<and> map_option progressValue
     (localLoop_exec True ''module''
        [FilterProgressSignal (Finite (1 / 2)), FilterProgressSignal (Finite (1 / 4))]
        (ctkCmdLineModuleProcessWatcher True new_task)) = Some 250"
  by (simp add: filterProgress_def updateProgress_eq round_binary32_500 round_binary32_250 to_zero_def
      INT_MIN_def INT_MAX_def clamp_def emit_def)

lemma reported_exceptions_Nil: "reported_exceptions [] = []"
  by (simp add: reported_exceptions_def)

lemma reported_exceptions_Cons:
  "reported_exceptions (c # cs) = exception_of c @ reported_exceptions cs"
  by (simp add: reported_exceptions_def)

lemma run_finishes_once:
  assumes "list_all convertible evs"
  shows "\<exists>w'. run unix location args evs process w = Some w'
           \<and> count_list (calls w') ReportFinished = count_list (calls w) ReportFinished + 1
           \<and> last (calls w') = ReportFinished
           \<and> length (reported_exceptions (calls w'))
               \<le> length (reported_exceptions (calls w)) + 1"
proof (cases "canceled w")
  case True
  then show ?thesis
    by (simp add: run_canceled reported_exceptions_def)
next
  case False
  from run_trace [OF False assms, of unix location args process]
  obtain w' cs where w': "run unix location args evs process w = Some w'"
      "list_all watcher_call cs"
      "calls w' =
         calls w @ [ProcessStart location args, SetProgressRange 0 1000]
         @ (if unix then [TimerStart 500] else []) @ cs
         @ map ReportException
             (if error process \<noteq> UnknownError then
                [RunException location (exitCode process) (errorString process)]
              else if exitCode process \<noteq> 0 then
                [RunException location (exitCode process) (standardError process)]
              else [])
         @ [SetProgressValueAndText 1000
              (if error process = UnknownError \<and> exitCode process \<noteq> 0 then []
               else standardError process),
            ReportFinished]"
    by blast
  have f: "count_list cs ReportFinished = 0"
    using w'(2) by (rule watcher_calls_no_finish)
  have e: "reported_exceptions cs = []"
    using w'(2) by (rule watcher_calls_no_exception)
  have "count_list (calls w') ReportFinished = count_list (calls w) ReportFinished + 1"
    using f by (simp add: w'(3))
  moreover have "last (calls w') = ReportFinished"
    by (simp add: w'(3))
  moreover have "length (reported_exceptions (calls w'))
      \<le> length (reported_exceptions (calls w)) + 1"
    using e by (simp add: w'(3) reported_exceptions_append reported_exceptions_Nil
        reported_exceptions_Cons)
  ultimately show ?thesis
    using w'(1) by blast
qed

text \<open>
  C8. Every run, canceled or not and whatever the process did, calls
  \<^verbatim>\<open>reportFinished()\<close> exactly once, as its last call, and reports at most one
  exception before it; so does every execution of a task, from \<^verbatim>\<open>start()\<close> on.
\<close>

theorem one_terminal_transition:
  assumes "list_all convertible evs"
  shows "(\<exists>w'. run unix location args evs process w = Some w'
            \<and> count_list (calls w') ReportFinished = count_list (calls w) ReportFinished + 1
            \<and> last (calls w') = ReportFinished
            \<and> length (reported_exceptions (calls w'))
                \<le> length (reported_exceptions (calls w)) + 1)
       \<and> (\<exists>w'. execute unix location args cancel_first evs process new_task = Some w'
            \<and> count_list (calls w') ReportFinished = 1
            \<and> last (calls w') = ReportFinished
            \<and> length (reported_exceptions (calls w')) \<le> 1)"
proof -
  let ?w1 = "start new_task"
  let ?w2 = "if cancel_first then ?w1\<lparr>canceled := True\<rparr> else ?w1"
  have c: "calls ?w2 = [SetRunnable, ReportStarted, ThreadPoolStart 0]"
    by (simp add: start_def emit_def new_task_def)
  have "count_list (calls ?w2) ReportFinished = 0" "reported_exceptions (calls ?w2) = []"
    unfolding c by (simp_all add: reported_exceptions_def)
  moreover have "execute unix location args cancel_first evs process new_task =
      run unix location args evs process ?w2"
    by (simp add: execute_def Let_def)
  ultimately have "\<exists>w'. execute unix location args cancel_first evs process new_task = Some w'
      \<and> count_list (calls w') ReportFinished = 1
      \<and> last (calls w') = ReportFinished
      \<and> length (reported_exceptions (calls w')) \<le> 1"
    using run_finishes_once [OF assms, of unix location args process ?w2] by auto
  then show ?thesis
    using run_finishes_once [OF assms, of unix location args process w] by blast
qed

theorem one_terminal_transition_witness:
  "(\<exists>w'. run False ''module'' [] [FilterStartedSignal ''blur'' [], CanceledSignal]
           \<lparr>error = Crashed, exitCode = 15, errorString = ''Process crashed'',
              standardError = []\<rparr> new_task = Some w'
        \<and> count_list (calls w') ReportFinished = 1
        \<and> last (calls w') = ReportFinished
        \<and> length (reported_exceptions (calls w')) \<le> 1)
   \<and> (\<exists>w'. execute False ''module'' [] False [FilterStartedSignal ''blur'' [], CanceledSignal]
           \<lparr>error = Crashed, exitCode = 15, errorString = ''Process crashed'',
              standardError = []\<rparr> new_task = Some w'
        \<and> count_list (calls w') ReportFinished = 1
        \<and> last (calls w') = ReportFinished
        \<and> length (reported_exceptions (calls w')) \<le> 1)"
proof -
  have e: "list_all convertible [FilterStartedSignal ''blur'' [], CanceledSignal]"
    by simp
  have c: "calls new_task = []"
    by (simp add: new_task_def)
  from one_terminal_transition [OF e, of False "''module''" "[]"
      "\<lparr>error = Crashed, exitCode = 15, errorString = ''Process crashed'',
         standardError = []\<rparr>" new_task False]
  show ?thesis
    by (simp add: c reported_exceptions_def del: localLoop_exec.simps)
qed

text \<open>
  C10 at a process that exits with code 2 and has written \<open>boom\<close> to its standard error
  channel: the exception carries the text, and the call that sets the progress to 1000
  passes the empty text, since the first read has emptied the channel. The same process
  exiting with code 0 has its text passed with the 1000.
\<close>

theorem final_text_after_exit_code:
  "map_option calls
     (run True ''module'' [] []
        \<lparr>error = UnknownError, exitCode = 2, errorString = ''Unknown error'',
           standardError = ''boom''\<rparr> new_task) =
   Some [ProcessStart ''module'' [], SetProgressRange 0 1000, TimerStart 500,
         ReportException (RunException ''module'' 2 ''boom''),
         SetProgressValueAndText 1000 [], ReportFinished]
   \<and> map_option calls
     (run True ''module'' [] []
        \<lparr>error = UnknownError, exitCode = 0, errorString = ''Unknown error'',
           standardError = ''boom''\<rparr> new_task) =
   Some [ProcessStart ''module'' [], SetProgressRange 0 1000, TimerStart 500,
         SetProgressValueAndText 1000 ''boom'', ReportFinished]"
  by (simp add: run_def ctkCmdLineModuleProcessWatcher_def report_outcome_def
      readAllStandardError_def emit_def new_task_def Let_def)

end
